theory Spec2Isabelle
  imports Main "HOL-Library.Multiset"
begin

section \<open>Values exchanged by the link checker\<close>

text \<open>
  The handler of \<^verbatim>\<open>/analyze\<close> (the variant with the broken-link check) is embedded
  here: the anchor traversal, the per-link promise chain
  \<^verbatim>\<open>axios.get(link, ...).then(...).catch(...)\<close>, the join with
  \<^verbatim>\<open>Promise.allSettled\<close>, and the two counters read by the scoring step.

  \<^verbatim>\<open>statusDetail\<close> is a JavaScript value that is either the numeric HTTP status or a
  string label.
\<close>

datatype status_detail = Code nat | Label string

text \<open>The object literal \<^verbatim>\<open>{ url: link, status: ..., type: ... }\<close>.\<close>

record link_result =
  url :: string
  status :: status_detail
  type :: string

text \<open>A promise once it has settled.\<close>

datatype ('a, 'e) promise = Fulfilled 'a | Rejected 'e

text \<open>
  The value a rejected request is rejected with, with the properties the catch handler
  reads. \<open>AxiosError\<close> is a value for which \<^verbatim>\<open>axios.isAxiosError\<close> holds:
  \<open>response\<close> is \<^verbatim>\<open>error.response.status\<close> when \<^verbatim>\<open>error.response\<close> is set,
  \<open>request\<close> says whether \<^verbatim>\<open>error.request\<close> is set, \<open>code\<close> is
  \<^verbatim>\<open>error.code\<close> (\<open>None\<close> for \<^verbatim>\<open>undefined\<close>). \<open>OtherError\<close> is any other thrown
  value; the handler reads only its \<^verbatim>\<open>message\<close>.
\<close>

datatype fault =
  AxiosError (response: "nat option") (request: bool) (code: "string option") (message: string)
| OtherError (message: string)

text \<open>
  What the network does with one request. \<open>Responded st len\<close> is an HTTP answer, the
  last one after redirects, with status \<open>st\<close> and a body of \<open>len\<close> bytes.
  \<open>Failed\<close> is a request that gets no answer, with the error the client raises for it
  (no answer within \<^verbatim>\<open>timeout\<close>, more than \<^verbatim>\<open>maxRedirects\<close> redirects, a name that
  does not resolve, a refused connection, ...).
\<close>

datatype transport_result = Responded nat nat | Failed fault

type_synonym transport = "string \<Rightarrow> transport_result"

section \<open>The request and its handlers\<close>

text \<open>\<^verbatim>\<open>validateStatus: function (status) { return status >= 200 && status < 500; }\<close>\<close>

definition validateStatus :: "nat \<Rightarrow> bool" where
  "validateStatus st = (st \<ge> 200 \<and> st < 500)"

text \<open>The decimal digits of a number, as string concatenation renders it.\<close>

function string_of_nat :: "nat \<Rightarrow> string" where
  "string_of_nat n =
     (if n < 10 then [char_of (48 + n)]
      else string_of_nat (n div 10) @ [char_of (48 + n mod 10)])"
  by pat_completeness auto
termination
  by (relation "measure (\<lambda>n. n)") auto

declare string_of_nat.simps [simp del]

text \<open>
  The library's settlement of a received response: it resolves when the status is
  \<open>0\<close> or accepted by the configured \<^verbatim>\<open>validateStatus\<close>, and otherwise rejects with
  an Axios error that carries the response and the request; its code is
  \<^verbatim>\<open>[ERR_BAD_REQUEST, ERR_BAD_RESPONSE][Math.floor(status / 100) - 4]\<close>.
\<close>

definition settle :: "(nat \<Rightarrow> bool) \<Rightarrow> nat \<Rightarrow> (nat, fault) promise" where
  "settle validate st =
     (if st = 0 \<or> validate st then Fulfilled st
      else Rejected (AxiosError (Some st) True
             (if st div 100 = 4 then Some ''ERR_BAD_REQUEST''
              else if st div 100 = 5 then Some ''ERR_BAD_RESPONSE'' else None)
             (''Request failed with status code '' @ string_of_nat st)))"

text \<open>The option \<^verbatim>\<open>maxContentLength: 2000\<close> of the request.\<close>

definition maxContentLength :: nat where
  "maxContentLength = 2000"

text \<open>
  \<^verbatim>\<open>axios.get(link, {..., maxContentLength: 2000, ..., validateStatus})\<close>: the request
  is recorded in the log of requests issued. While the body of the answer is read, the
  library rejects the request as soon as more than \<^verbatim>\<open>maxContentLength\<close> bytes have
  arrived, with an Axios error that has the request, no response, and the code
  \<^verbatim>\<open>ERR_BAD_RESPONSE\<close>; this happens before the status is settled. Otherwise the
  promise settles with the response, or with the failure of the network.
\<close>

definition axios_get :: "transport \<Rightarrow> string \<Rightarrow> string list \<Rightarrow> (nat, fault) promise \<times> string list" where
  "axios_get net link log =
     (case net link of
        Responded st len \<Rightarrow>
          (if len > maxContentLength
           then Rejected (AxiosError None True (Some ''ERR_BAD_RESPONSE'')
                  (''maxContentLength size of '' @ string_of_nat maxContentLength
                     @ '' exceeded''))
           else settle validateStatus st,
           log @ [link])
      | Failed e \<Rightarrow> (Rejected e, log @ [link]))"

text \<open>The \<^verbatim>\<open>.then(response => ...)\<close> handler; \<open>None\<close> is \<^verbatim>\<open>null\<close>.\<close>

definition then_handler :: "string \<Rightarrow> nat \<Rightarrow> link_result option" where
  "then_handler link response_status =
     (if response_status \<ge> 400 \<and> response_status < 500
      then Some \<lparr>url = link, status = Code response_status, type = ''Client Error''\<rparr>
      else None)"

text \<open>\<^verbatim>\<open>a || b\<close> on strings: the empty string is falsy.\<close>

definition or_else :: "string \<Rightarrow> string \<Rightarrow> string" where
  "or_else a b = (if a \<noteq> [] then a else b)"

text \<open>\<^verbatim>\<open>error.code || error.message\<close>, where the code may be \<^verbatim>\<open>undefined\<close>.\<close>

definition code_or_message :: "string option \<Rightarrow> string \<Rightarrow> string" where
  "code_or_message c m = (case c of None \<Rightarrow> m | Some s \<Rightarrow> or_else s m)"

text \<open>The \<^verbatim>\<open>.catch(error => ...)\<close> handler, branch by branch.\<close>

definition catch_handler :: "string \<Rightarrow> fault \<Rightarrow> link_result" where
  "catch_handler link error =
     (let (statusDetail, errorType) =
        (case error of
           AxiosError resp req cd msg \<Rightarrow>
             (case resp of
                Some st \<Rightarrow>
                  (Code st,
                   if st \<ge> 500 then ''Server Error''
                   else if st \<ge> 400 \<and> st < 500 then ''Client Error''
                   else ''Network Issue'')
              | None \<Rightarrow>
                  if req then
                    (if cd = Some ''ECONNABORTED'' \<or> cd = Some ''ETIMEDOUT''
                       then (Label ''Timeout'', ''Network Issue'')
                     else if cd = Some ''ENOTFOUND''
                       then (Label ''DNS Resolution Failed'', ''Network Issue'')
                     else if cd = Some ''ECONNREFUSED''
                       then (Label ''Connection Refused'', ''Network Issue'')
                     else if cd = Some ''ERR_NETWORK''
                       then (Label ''Generic Network Error'', ''Network Issue'')
                     else (Label (''Axios Request Error: '' @ code_or_message cd msg),
                           ''Network Issue''))
                  else (Label (or_else msg ''Axios Setup Error''), ''Unknown Axios Error''))
         | OtherError msg \<Rightarrow> (Label (or_else msg ''Unknown Error''), ''Non-Axios Error''))
      in \<lparr>url = link, status = statusDetail, type = errorType\<rparr>)"

text \<open>\<^verbatim>\<open>p.then(f)\<close> and \<^verbatim>\<open>p.catch(g)\<close> for handlers that do not throw.\<close>

definition promise_then :: "('a \<Rightarrow> 'b) \<Rightarrow> ('a, 'e) promise \<Rightarrow> ('b, 'e) promise" where
  "promise_then f p = (case p of Fulfilled v \<Rightarrow> Fulfilled (f v) | Rejected e \<Rightarrow> Rejected e)"

definition promise_catch :: "('e \<Rightarrow> 'a) \<Rightarrow> ('a, 'e) promise \<Rightarrow> ('a, 'e) promise" where
  "promise_catch g p = (case p of Fulfilled v \<Rightarrow> Fulfilled v | Rejected e \<Rightarrow> Fulfilled (g e))"

text \<open>The callback of \<^verbatim>\<open>uniqueLinksToCheck.map(link => ...)\<close>.\<close>

definition check_link ::
  "transport \<Rightarrow> string \<Rightarrow> string list \<Rightarrow> (link_result option, fault) promise \<times> string list" where
  "check_link net link log =
     (let (p, log') = axios_get net link log
      in (promise_catch (\<lambda>error. Some (catch_handler link error))
            (promise_then (then_handler link) p), log'))"

section \<open>The verification phase\<close>

text \<open>
  \<^verbatim>\<open>[...new Set(allLinks)]\<close>: a \<^verbatim>\<open>Set\<close> keeps its elements in insertion order and
  ignores a value it already holds, so the first occurrence of each link is kept.
\<close>

fun set_add_all :: "string list \<Rightarrow> string list \<Rightarrow> string list" where
  "set_add_all seen [] = seen"
| "set_add_all seen (x # xs) = set_add_all (if x \<in> set seen then seen else seen @ [x]) xs"

definition uniqueLinksToCheck :: "string list \<Rightarrow> string list" where
  "uniqueLinksToCheck allLinks = set_add_all [] allLinks"

text \<open>
  \<^verbatim>\<open>uniqueLinksToCheck.map(link => ...)\<close>: the callback runs once per element, in
  order, and the log of requests is threaded through the calls.
\<close>

fun linkCheckPromises ::
  "transport \<Rightarrow> string list \<Rightarrow> string list \<Rightarrow>
     (link_result option, fault) promise list \<times> string list" where
  "linkCheckPromises net [] log = ([], log)"
| "linkCheckPromises net (link # links) log =
     (let (p, log1) = check_link net link log;
          (ps, log2) = linkCheckPromises net links log1
      in (p # ps, log2))"

text \<open>
  \<^verbatim>\<open>await Promise.allSettled(promises)\<close> yields, for each promise and in the order of
  the input, how it settled; the join itself never rejects.
\<close>

definition allSettled :: "('a, 'e) promise list \<Rightarrow> ('a, 'e) promise list" where
  "allSettled ps = ps"

text \<open>
  An element of \<^verbatim>\<open>brokenLinks\<close>: the object built by a handler, or the reason of a
  rejected promise, pushed as it is.
\<close>

datatype broken_entry = Outcome link_result | Reason fault

text \<open>The \<^verbatim>\<open>linkCheckResults.forEach(result => ...)\<close> loop.\<close>

fun collect_results ::
  "broken_entry list \<Rightarrow> (link_result option, fault) promise list \<Rightarrow> broken_entry list" where
  "collect_results brokenLinks [] = brokenLinks"
| "collect_results brokenLinks (result # results) =
     (case result of
        Fulfilled v \<Rightarrow>
          (case v of
             Some r \<Rightarrow> collect_results (brokenLinks @ [Outcome r]) results
           | None \<Rightarrow> collect_results brokenLinks results)
      | Rejected reason \<Rightarrow> collect_results (brokenLinks @ [Reason reason]) results)"

definition linkCheckResults ::
  "transport \<Rightarrow> string list \<Rightarrow> (link_result option, fault) promise list" where
  "linkCheckResults net allLinks =
     allSettled (fst (linkCheckPromises net (uniqueLinksToCheck allLinks) []))"

definition requests_issued :: "transport \<Rightarrow> string list \<Rightarrow> string list" where
  "requests_issued net allLinks = snd (linkCheckPromises net (uniqueLinksToCheck allLinks) [])"

definition brokenLinks :: "transport \<Rightarrow> string list \<Rightarrow> broken_entry list" where
  "brokenLinks net allLinks = collect_results [] (linkCheckResults net allLinks)"

text \<open>
  \<^verbatim>\<open>link.type\<close> and \<^verbatim>\<open>link.url\<close> of an element of \<^verbatim>\<open>brokenLinks\<close>; an error
  object has neither property (\<open>None\<close> is \<^verbatim>\<open>undefined\<close>).
\<close>

definition entry_type :: "broken_entry \<Rightarrow> string option" where
  "entry_type e = (case e of Outcome r \<Rightarrow> Some (type r) | Reason x \<Rightarrow> None)"

definition entry_url :: "broken_entry \<Rightarrow> string option" where
  "entry_url e = (case e of Outcome r \<Rightarrow> Some (url r) | Reason x \<Rightarrow> None)"

definition confirmedBrokenLinksCount :: "broken_entry list \<Rightarrow> nat" where
  "confirmedBrokenLinksCount bl =
     length (filter (\<lambda>link. entry_type link = Some ''Client Error''
                          \<or> entry_type link = Some ''Server Error'') bl)"

definition networkIssueLinksCount :: "broken_entry list \<Rightarrow> nat" where
  "networkIssueLinksCount bl =
     length (filter (\<lambda>link. entry_type link = Some ''Network Issue''
                          \<or> entry_type link = Some ''Connection Problem'') bl)"

section \<open>The anchor traversal\<close>

text \<open>\<^verbatim>\<open>s.includes(pat)\<close>: \<open>pat\<close> occurs in \<open>s\<close> as a contiguous run.\<close>

fun starts_with :: "string \<Rightarrow> string \<Rightarrow> bool" where
  "starts_with s [] = True"
| "starts_with [] (p # ps) = False"
| "starts_with (c # cs) (p # ps) = (c = p \<and> starts_with cs ps)"

fun includes_str :: "string \<Rightarrow> string \<Rightarrow> bool" where
  "includes_str [] pat = (pat = [])"
| "includes_str (c # cs) pat = (starts_with (c # cs) pat \<or> includes_str cs pat)"

text \<open>The fields of a parsed URL that the traversal reads; \<open>None\<close> is \<^verbatim>\<open>null\<close>.\<close>

record parsed_url =
  protocol :: "string option"
  host :: "string option"

text \<open>An exception thrown inside the \<^verbatim>\<open>try\<close> block, with its message.\<close>

datatype js_error = Thrown string

text \<open>An \<^verbatim>\<open>a\<close> element: its \<^verbatim>\<open>href\<close> and \<^verbatim>\<open>rel\<close> attributes, \<open>None\<close> when absent.\<close>

record anchor =
  href_attr :: "string option"
  rel_attr :: "string option"

record link_lists =
  allLinks :: "string list"
  internalLinks :: "string list"
  externalDofollowLinks :: "string list"
  externalNofollowLinks :: "string list"

definition no_links :: link_lists where
  "no_links = \<lparr>allLinks = [], internalLinks = [], externalDofollowLinks = [],
               externalNofollowLinks = []\<rparr>"

text \<open>
  The body of \<^verbatim>\<open>$('a').each((i, el) => ...)\<close>. \<^verbatim>\<open>urlParser.resolve\<close> and
  \<^verbatim>\<open>urlParser.parse\<close> belong to the runtime and are parameters; either may throw, and
  the \<^verbatim>\<open>catch\<close> then leaves the lists as they are at that point.
\<close>

definition anchor_step ::
  "(string \<Rightarrow> string \<Rightarrow> js_error + string) \<Rightarrow> (string \<Rightarrow> js_error + parsed_url) \<Rightarrow>
     parsed_url \<Rightarrow> string \<Rightarrow> link_lists \<Rightarrow> anchor \<Rightarrow> link_lists" where
  "anchor_step resolve parse parsedUrl baseUrl st el =
     (case href_attr el of
        None \<Rightarrow> st
      | Some href \<Rightarrow>
          if href = [] then st
          else
            (case resolve baseUrl href of
               Inl linkError \<Rightarrow> st
             | Inr absoluteHref \<Rightarrow>
                 (let st1 = st\<lparr>allLinks := allLinks st @ [absoluteHref]\<rparr> in
                  case parse absoluteHref of
                    Inl linkError \<Rightarrow> st1
                  | Inr parsedHref \<Rightarrow>
                      (let rel = (case rel_attr el of None \<Rightarrow> [] | Some r \<Rightarrow> or_else r [])
                       in if protocol parsedHref = protocol parsedUrl
                             \<and> host parsedHref = host parsedUrl
                          then st1\<lparr>internalLinks := internalLinks st1 @ [absoluteHref]\<rparr>
                          else if includes_str rel ''nofollow'' \<or> includes_str rel ''ugc''
                                  \<or> includes_str rel ''sponsored''
                          then st1\<lparr>externalNofollowLinks :=
                                     externalNofollowLinks st1 @ [absoluteHref]\<rparr>
                          else st1\<lparr>externalDofollowLinks :=
                                     externalDofollowLinks st1 @ [absoluteHref]\<rparr>))))"

text \<open>
  The traversal of all anchors of the page, in document order, from the empty lists.
\<close>

definition traverse_anchors ::
  "(string \<Rightarrow> string \<Rightarrow> js_error + string) \<Rightarrow> (string \<Rightarrow> js_error + parsed_url) \<Rightarrow>
     parsed_url \<Rightarrow> string \<Rightarrow> anchor list \<Rightarrow> link_lists" where
  "traverse_anchors resolve parse parsedUrl baseUrl anchors =
     foldl (anchor_step resolve parse parsedUrl baseUrl) no_links anchors"

text \<open>
  Traversal followed by verification: the requests issued and the resulting
  \<^verbatim>\<open>brokenLinks\<close> for a page with the given anchors.
\<close>

definition check_page ::
  "(string \<Rightarrow> string \<Rightarrow> js_error + string) \<Rightarrow> (string \<Rightarrow> js_error + parsed_url) \<Rightarrow>
     transport \<Rightarrow> parsed_url \<Rightarrow> string \<Rightarrow> anchor list \<Rightarrow> string list \<times> broken_entry list" where
  "check_page resolve parse net parsedUrl baseUrl anchors =
     (let links = allLinks (traverse_anchors resolve parse parsedUrl baseUrl anchors)
      in (requests_issued net links, brokenLinks net links))"

text \<open>What one iteration of the \<^verbatim>\<open>forEach\<close> loop pushes for one result.\<close>

definition entries_of :: "(link_result option, fault) promise \<Rightarrow> broken_entry list" where
  "entries_of result =
     (case result of
        Fulfilled v \<Rightarrow> (case v of Some r \<Rightarrow> [Outcome r] | None \<Rightarrow> [])
      | Rejected reason \<Rightarrow> [Reason reason])"

section \<open>The runtime's URL parser\<close>

text \<open>
  \<^verbatim>\<open>urlParser.parse\<close> is the legacy parser of the Node.js \<^verbatim>\<open>url\<close> module. The
  traversal reads two fields of its result. For an \<^verbatim>\<open>http\<close> or \<^verbatim>\<open>https\<close> URL of
  the shape \<^verbatim>\<open>scheme://host[:port][/path][?query][#fragment]\<close>, with a host name made
  of ASCII letters, digits, dots and hyphens and without user information,
  \<^verbatim>\<open>protocol\<close> is the lower-cased scheme with its colon, and
  \<^verbatim>\<open>host\<close> is the lower-cased host name followed by \<^verbatim>\<open>:port\<close> when a port is
  written (\<^verbatim>\<open>hostname\<close>, which the traversal does not read, is the field without the
  port). The definitions below follow the parser on URLs of that shape: the scheme is the
  longest prefix matching \<^verbatim>\<open>[a-z0-9.+-]+\<close> (any case) before a colon, the host part
  runs from after \<^verbatim>\<open>//\<close> to the first of \<^verbatim>\<open>/\<close>, \<^verbatim>\<open>?\<close>, \<^verbatim>\<open>#\<close>, and the port
  is what matches \<^verbatim>\<open>:[0-9]*$\<close> in it.
\<close>

definition to_lower :: "char \<Rightarrow> char" where
  "to_lower c =
     (let n = (of_char c :: nat) in if 65 \<le> n \<and> n \<le> 90 then char_of (n + 32) else c)"

definition is_digit :: "char \<Rightarrow> bool" where
  "is_digit c = (let n = (of_char c :: nat) in 48 \<le> n \<and> n \<le> 57)"

definition proto_char :: "char \<Rightarrow> bool" where
  "proto_char c =
     (let n = (of_char c :: nat)
      in (97 \<le> n \<and> n \<le> 122) \<or> (65 \<le> n \<and> n \<le> 90) \<or> (48 \<le> n \<and> n \<le> 57)
         \<or> n = 46 \<or> n = 43 \<or> n = 45)"

definition host_ending_char :: "char \<Rightarrow> bool" where
  "host_ending_char c = (c = CHR ''/'' \<or> c = CHR ''?'' \<or> c = CHR ''#'')"

text \<open>The characters of a host name: ASCII letters, digits, the dot and the hyphen.\<close>

definition host_name_char :: "char \<Rightarrow> bool" where
  "host_name_char c =
     (let n = (of_char c :: nat)
      in (97 \<le> n \<and> n \<le> 122) \<or> (65 \<le> n \<and> n \<le> 90) \<or> (48 \<le> n \<and> n \<le> 57)
         \<or> n = 46 \<or> n = 45)"

definition node_host :: "string \<Rightarrow> string" where
  "node_host authority =
     (let port_rev = takeWhile is_digit (rev authority);
          before_rev = dropWhile is_digit (rev authority)
      in if starts_with before_rev '':''
         then map to_lower (rev (drop 1 before_rev))
              @ (if port_rev \<noteq> [] then '':'' @ rev port_rev else [])
         else map to_lower authority)"

definition node_url_parse :: "string \<Rightarrow> parsed_url" where
  "node_url_parse s =
     (let proto = takeWhile proto_char s; rest = dropWhile proto_char s
      in if proto \<noteq> [] \<and> starts_with rest '':''
         then (if starts_with (drop 1 rest) ''//''
               then \<lparr>protocol = Some (map to_lower proto @ '':''),
                     host = Some (node_host (takeWhile (\<lambda>c. \<not> host_ending_char c) (drop 3 rest)))\<rparr>
               else \<lparr>protocol = Some (map to_lower proto @ '':''), host = None\<rparr>)
         else \<lparr>protocol = None, host = None\<rparr>)"

section \<open>Sample inputs\<close>

text \<open>
  A network in which one link answers 404, one 200, one 503, each with a short body, and
  every other request times out, and a page whose links repeat.
\<close>

definition sample_net :: transport where
  "sample_net link =
     (if link = ''https://a.example/missing'' then Responded 404 512
      else if link = ''https://a.example/ok'' then Responded 200 1500
      else if link = ''https://b.example/down'' then Responded 503 0
      else Failed (AxiosError None True (Some ''ETIMEDOUT'') ''timeout of 10000ms exceeded''))"

text \<open>
  A network in which one page answers 200 with a body of 2001 bytes, and every other
  link answers 404 with a body of 3000 bytes.
\<close>

definition large_body_net :: transport where
  "large_body_net link =
     (if link = ''https://a.example/page'' then Responded 200 2001 else Responded 404 3000)"

definition sample_links :: "string list" where
  "sample_links = [''https://a.example/ok'', ''https://a.example/missing'',
                   ''https://a.example/ok'', ''https://b.example/down'',
                   ''https://a.example/missing'', ''https://c.example/slow'']"

text \<open>
  A page at \<^verbatim>\<open>https://example.com\<close> with a relative link, two links to another site
  (one marked \<^verbatim>\<open>nofollow\<close>), an anchor without \<^verbatim>\<open>href\<close> and one with an empty
  \<^verbatim>\<open>href\<close>. The sample resolver does what \<^verbatim>\<open>urlParser.resolve\<close> does on hrefs of
  these two shapes, against a base without a path: an absolute URL is kept, and a path
  that starts with a slash is appended to the base.
\<close>

definition sample_resolve :: "string \<Rightarrow> string \<Rightarrow> js_error + string" where
  "sample_resolve base href =
     (if protocol (node_url_parse href) \<noteq> None then Inr href
      else if starts_with href ''/'' then Inr (base @ href)
      else Inr (base @ ''/'' @ href))"

definition sample_parse :: "string \<Rightarrow> js_error + parsed_url" where
  "sample_parse u = Inr (node_url_parse u)"

definition sample_anchors :: "anchor list" where
  "sample_anchors =
     [\<lparr>href_attr = Some ''/about'', rel_attr = None\<rparr>,
      \<lparr>href_attr = Some ''https://other.com/x'', rel_attr = Some ''noopener nofollow''\<rparr>,
      \<lparr>href_attr = None, rel_attr = None\<rparr>,
      \<lparr>href_attr = Some ''https://other.com/y'', rel_attr = None\<rparr>,
      \<lparr>href_attr = Some [], rel_attr = Some ''nofollow''\<rparr>]"

section \<open>Properties of the verification phase\<close>

lemma check_link_log: "snd (check_link net link log) = log @ [link]"
  by (simp add: check_link_def axios_get_def split: transport_result.splits prod.splits)

lemma check_link_any_log: "fst (check_link net link log) = fst (check_link net link [])"
  by (simp add: check_link_def axios_get_def split: transport_result.splits prod.splits)

lemma check_link_fulfilled: "\<exists>v. fst (check_link net link log) = Fulfilled v"
  by (simp add: check_link_def axios_get_def promise_then_def promise_catch_def settle_def
      split: transport_result.splits prod.splits promise.splits)

lemma check_link_url:
  "fst (check_link net link log) = Fulfilled (Some r) \<Longrightarrow> url r = link"
  by (auto simp add: check_link_def axios_get_def promise_then_def promise_catch_def settle_def
      then_handler_def catch_handler_def Let_def
      split: transport_result.splits prod.splits promise.splits if_splits fault.splits option.splits)

lemma linkCheckPromises_fst:
  "fst (linkCheckPromises net links log) = map (\<lambda>l. fst (check_link net l [])) links"
proof (induction links arbitrary: log)
  case Nil
  show ?case by simp
next
  case (Cons l ls)
  have "fst (linkCheckPromises net (l # ls) log)
        = fst (check_link net l log) # fst (linkCheckPromises net ls (snd (check_link net l log)))"
    by (simp add: split_beta Let_def)
  then show ?case using Cons.IH check_link_any_log [of net l log] by simp
qed

lemma linkCheckPromises_snd:
  "snd (linkCheckPromises net links log) = log @ links"
proof (induction links arbitrary: log)
  case Nil
  show ?case by simp
next
  case (Cons l ls)
  have "snd (linkCheckPromises net (l # ls) log)
        = snd (linkCheckPromises net ls (snd (check_link net l log)))"
    by (simp add: split_beta Let_def)
  then show ?case using Cons.IH check_link_log [of net l log] by simp
qed

lemma set_add_all_set: "set (set_add_all seen xs) = set seen \<union> set xs"
  by (induction xs arbitrary: seen) auto

lemma set_add_all_distinct: "distinct seen \<Longrightarrow> distinct (set_add_all seen xs)"
  by (induction xs arbitrary: seen) auto

lemma uniqueLinksToCheck_set: "set (uniqueLinksToCheck links) = set links"
  by (simp add: uniqueLinksToCheck_def set_add_all_set)

lemma uniqueLinksToCheck_distinct: "distinct (uniqueLinksToCheck links)"
  by (simp add: uniqueLinksToCheck_def set_add_all_distinct)


lemma collect_results_concat:
  "collect_results acc results = acc @ concat (map entries_of results)"
  by (induction results arbitrary: acc)
     (simp_all add: entries_of_def split: promise.splits option.splits)

lemma linkCheckResults_map:
  "linkCheckResults net links = map (\<lambda>l. fst (check_link net l [])) (uniqueLinksToCheck links)"
  by (simp add: linkCheckResults_def allSettled_def linkCheckPromises_fst)

lemma requests_issued_unique: "requests_issued net links = uniqueLinksToCheck links"
  by (simp add: requests_issued_def linkCheckPromises_snd)

lemma brokenLinks_concat:
  "brokenLinks net links =
     concat (map (\<lambda>l. entries_of (fst (check_link net l []))) (uniqueLinksToCheck links))"
  by (simp add: brokenLinks_def collect_results_concat linkCheckResults_map comp_def)

lemma entries_of_check_link_url:
  "e \<in> set (entries_of (fst (check_link net l log))) \<Longrightarrow> entry_url e = Some l"
proof -
  assume e: "e \<in> set (entries_of (fst (check_link net l log)))"
  obtain v where v: "fst (check_link net l log) = Fulfilled v"
    using check_link_fulfilled by blast
  with e obtain r where r: "v = Some r" "e = Outcome r"
    by (auto simp: entries_of_def split: option.splits)
  with v have "url r = l" using check_link_url by blast
  with r show ?thesis by (simp add: entry_url_def)
qed

lemma filter_concat_map_one:
  assumes "distinct xs" "x \<in> set xs"
    and "\<And>y e. y \<in> set xs \<Longrightarrow> e \<in> set (f y) \<Longrightarrow> (P e \<longleftrightarrow> y = x)"
  shows "filter P (concat (map f xs)) = f x"
  using assms
proof (induction xs)
  case Nil
  then show ?case by simp
next
  case (Cons a xs)
  show ?case
  proof (cases "a = x")
    case True
    then have notin: "x \<notin> set xs" using Cons.prems(1) by simp
    have "filter P (f a) = f a"
      using Cons.prems(3) [of a] True by (simp add: filter_id_conv)
    moreover have "filter P (concat (map f xs)) = []"
      using Cons.prems(3) notin by (auto simp: filter_empty_conv)
    ultimately show ?thesis using True by simp
  next
    case False
    then have xin: "x \<in> set xs" using Cons.prems(2) by simp
    have "filter P (f a) = []"
      using Cons.prems(3) [of a] False by (simp add: filter_empty_conv)
    moreover have "filter P (concat (map f xs)) = f x"
      using Cons.IH Cons.prems(1,3) xin by simp
    ultimately show ?thesis by simp
  qed
qed

lemma brokenLinks_for_url:
  assumes "u \<in> set links"
  shows "filter (\<lambda>e. entry_url e = Some u) (brokenLinks net links)
           = entries_of (fst (check_link net u []))"
  unfolding brokenLinks_concat
proof (rule filter_concat_map_one)
  show "distinct (uniqueLinksToCheck links)" by (rule uniqueLinksToCheck_distinct)
  show "u \<in> set (uniqueLinksToCheck links)" using assms by (simp add: uniqueLinksToCheck_set)
  fix y e
  assume "e \<in> set (entries_of (fst (check_link net y [])))"
  then have "entry_url e = Some y" by (rule entries_of_check_link_url)
  then show "(entry_url e = Some u) = (y = u)" by simp
qed

lemma check_link_accepted:
  assumes "net link = Responded st len" "len \<le> maxContentLength" "200 \<le> st" "st < 500"
  shows "fst (check_link net link log) = Fulfilled (then_handler link st)"
  using assms
  by (simp add: check_link_def axios_get_def settle_def validateStatus_def
      promise_then_def promise_catch_def)

lemma check_link_over_limit:
  assumes "net link = Responded st len" "maxContentLength < len"
  shows "fst (check_link net link log)
           = Fulfilled (Some \<lparr>url = link, status = Label ''Axios Request Error: ERR_BAD_RESPONSE'',
                               type = ''Network Issue''\<rparr>)"
  using assms
  by (simp add: check_link_def axios_get_def promise_then_def promise_catch_def
      catch_handler_def code_or_message_def or_else_def)

text \<open>
  An answer whose status lies in \<open>[200, 500)\<close> and whose body has at most
  \<^verbatim>\<open>maxContentLength\<close> bytes is accepted by \<^verbatim>\<open>validateStatus\<close>, so the request
  promise is fulfilled. For a link of the page that gets such an answer,
  \<^verbatim>\<open>brokenLinks\<close> holds exactly one record for it when the status is in
  \<open>[400, 500)\<close>, with that numeric status and type \<^verbatim>\<open>Client Error\<close>, and no record
  when the status is in \<open>[200, 400)\<close>.
\<close>

lemma accepted_status_within_limit:
  assumes "net link = Responded st len" and "len \<le> maxContentLength"
    and "200 \<le> st" and "st < 500" and "link \<in> set links"
  shows "validateStatus st
       \<and> fst (axios_get net link log) = Fulfilled st
       \<and> filter (\<lambda>e. entry_url e = Some link) (brokenLinks net links)
           = (if 400 \<le> st
              then [Outcome \<lparr>url = link, status = Code st, type = ''Client Error''\<rparr>]
              else [])"
proof -
  have v: "validateStatus st" using assms(3,4) by (simp add: validateStatus_def)
  have g: "fst (axios_get net link log) = Fulfilled st"
    using assms(1,2) v by (simp add: axios_get_def settle_def)
  have "fst (check_link net link []) = Fulfilled (then_handler link st)"
    using assms(1-4) by (rule check_link_accepted)
  then have "entries_of (fst (check_link net link []))
             = (if 400 \<le> st
                then [Outcome \<lparr>url = link, status = Code st, type = ''Client Error''\<rparr>]
                else [])"
    using assms(4) by (simp add: entries_of_def then_handler_def)
  with brokenLinks_for_url [OF assms(5), of net] v g show ?thesis by simp
qed

text \<open>
  C2. The claim is that every answer with a status in \<open>[200, 500)\<close> settles the request
  without an exception, a status in \<open>[200, 400)\<close> leaving no record in
  \<^verbatim>\<open>brokenLinks\<close> and a status in \<open>[400, 500)\<close> a \<^verbatim>\<open>Client Error\<close> record. The
  code does not do this for an answer whose body is longer than \<^verbatim>\<open>maxContentLength\<close>
  (2000 bytes): whatever the status, the request is rejected while the body is read, and
  for a link of the page that gets such an answer \<^verbatim>\<open>brokenLinks\<close> holds exactly one
  record, of type \<^verbatim>\<open>Network Issue\<close> and with the status label
  \<^verbatim>\<open>Axios Request Error: ERR_BAD_RESPONSE\<close>. The comment at the option,
  \<^verbatim>\<open>Only download first 2KB for efficiency\<close>, says that the body was meant to be cut
  short, not the request to fail.
\<close>

theorem oversized_answer_is_reported:
  assumes "net link = Responded st len" and "maxContentLength < len" and "link \<in> set links"
  shows "fst (axios_get net link log)
           = Rejected (AxiosError None True (Some ''ERR_BAD_RESPONSE'')
               (''maxContentLength size of '' @ string_of_nat maxContentLength @ '' exceeded''))
       \<and> filter (\<lambda>e. entry_url e = Some link) (brokenLinks net links)
           = [Outcome \<lparr>url = link, status = Label ''Axios Request Error: ERR_BAD_RESPONSE'',
                       type = ''Network Issue''\<rparr>]"
proof -
  have g: "fst (axios_get net link log)
           = Rejected (AxiosError None True (Some ''ERR_BAD_RESPONSE'')
               (''maxContentLength size of '' @ string_of_nat maxContentLength @ '' exceeded''))"
    using assms(1,2) by (simp add: axios_get_def)
  have "fst (check_link net link [])
           = Fulfilled (Some \<lparr>url = link, status = Label ''Axios Request Error: ERR_BAD_RESPONSE'',
                               type = ''Network Issue''\<rparr>)"
    using assms(1,2) by (rule check_link_over_limit)
  then have "entries_of (fst (check_link net link []))
           = [Outcome \<lparr>url = link, status = Label ''Axios Request Error: ERR_BAD_RESPONSE'',
                       type = ''Network Issue''\<rparr>]"
    by (simp add: entries_of_def)
  with brokenLinks_for_url [OF assms(3), of net] g show ?thesis by simp
qed

theorem oversized_answer_is_reported_witness:
  "filter (\<lambda>e. entry_url e = Some ''https://a.example/page'')
      (brokenLinks large_body_net [''https://a.example/page'', ''https://a.example/gone''])
     = [Outcome \<lparr>url = ''https://a.example/page'',
                 status = Label ''Axios Request Error: ERR_BAD_RESPONSE'',
                 type = ''Network Issue''\<rparr>]
   \<and> filter (\<lambda>e. entry_url e = Some ''https://a.example/gone'')
      (brokenLinks large_body_net [''https://a.example/page'', ''https://a.example/gone''])
     = [Outcome \<lparr>url = ''https://a.example/gone'',
                 status = Label ''Axios Request Error: ERR_BAD_RESPONSE'',
                 type = ''Network Issue''\<rparr>]"
  using
    oversized_answer_is_reported [of large_body_net "''https://a.example/page''" 200 2001
      "[''https://a.example/page'', ''https://a.example/gone'']" "[]"]
    oversized_answer_is_reported [of large_body_net "''https://a.example/gone''" 404 3000
      "[''https://a.example/page'', ''https://a.example/gone'']" "[]"]
  by (simp add: large_body_net_def maxContentLength_def)

lemma check_link_depends_on_own_result:
  "net' link = net link \<Longrightarrow> fst (check_link net' link log') = fst (check_link net link log)"
  by (simp add: check_link_def axios_get_def split: transport_result.splits prod.splits)

lemma brokenLinks_are_outcomes:
  "e \<in> set (brokenLinks net links) \<Longrightarrow> \<exists>r. e = Outcome r"
proof -
  assume "e \<in> set (brokenLinks net links)"
  then obtain l where "e \<in> set (entries_of (fst (check_link net l [])))"
    by (auto simp: brokenLinks_concat)
  moreover obtain v where "fst (check_link net l []) = Fulfilled v"
    using check_link_fulfilled by blast
  ultimately show ?thesis by (auto simp: entries_of_def split: option.splits)
qed

lemma count_list_distinct_member:
  "distinct xs \<Longrightarrow> x \<in> set xs \<Longrightarrow> count_list xs x = 1"
  by (induction xs) auto

text \<open>
  C1. The verification phase issues one request for each distinct link of the page, none
  skipped, and \<^verbatim>\<open>Promise.allSettled\<close> yields one result per distinct link. Every one
  of these results is a fulfilment: a failed request is turned into a record by the
  catch handler and never leaves the phase as a rejection, so \<^verbatim>\<open>brokenLinks\<close> holds
  records only. The result for a link is decided by what the network does with that
  link alone, whatever happens to the requests for the other links.
\<close>

theorem every_link_settles:
  "distinct (uniqueLinksToCheck links)
   \<and> set (uniqueLinksToCheck links) = set links
   \<and> requests_issued net links = uniqueLinksToCheck links
   \<and> length (linkCheckResults net links) = length (uniqueLinksToCheck links)
   \<and> (\<forall>i < length (uniqueLinksToCheck links).
         (\<exists>v. linkCheckResults net links ! i = Fulfilled v)
       \<and> (\<forall>net'. net' (uniqueLinksToCheck links ! i) = net (uniqueLinksToCheck links ! i)
              \<longrightarrow> linkCheckResults net' links ! i = linkCheckResults net links ! i))
   \<and> (\<forall>e \<in> set (brokenLinks net links). \<exists>r. e = Outcome r)"
proof (intro conjI allI impI ballI)
  show "distinct (uniqueLinksToCheck links)" by (rule uniqueLinksToCheck_distinct)
  show "set (uniqueLinksToCheck links) = set links" by (rule uniqueLinksToCheck_set)
  show "requests_issued net links = uniqueLinksToCheck links" by (rule requests_issued_unique)
  show "length (linkCheckResults net links) = length (uniqueLinksToCheck links)"
    by (simp add: linkCheckResults_map)
next
  fix i assume "i < length (uniqueLinksToCheck links)"
  then have "linkCheckResults net links ! i = fst (check_link net (uniqueLinksToCheck links ! i) [])"
    by (simp add: linkCheckResults_map)
  then show "\<exists>v. linkCheckResults net links ! i = Fulfilled v"
    using check_link_fulfilled [of net "uniqueLinksToCheck links ! i" "[]"] by simp
next
  fix i net'
  assume i: "i < length (uniqueLinksToCheck links)"
    and same: "net' (uniqueLinksToCheck links ! i) = net (uniqueLinksToCheck links ! i)"
  have "linkCheckResults net' links ! i = fst (check_link net' (uniqueLinksToCheck links ! i) [])"
    using i by (simp add: linkCheckResults_map)
  also have "\<dots> = fst (check_link net (uniqueLinksToCheck links ! i) [])"
    using same by (rule check_link_depends_on_own_result)
  also have "\<dots> = linkCheckResults net links ! i"
    using i by (simp add: linkCheckResults_map)
  finally show "linkCheckResults net' links ! i = linkCheckResults net links ! i" .
next
  fix e assume "e \<in> set (brokenLinks net links)"
  then show "\<exists>r. e = Outcome r" by (rule brokenLinks_are_outcomes)
qed

theorem every_link_settles_witness:
  "requests_issued sample_net sample_links
     = [''https://a.example/ok'', ''https://a.example/missing'', ''https://b.example/down'',
        ''https://c.example/slow'']
   \<and> length (linkCheckResults sample_net sample_links) = 4
   \<and> (\<exists>v. linkCheckResults sample_net sample_links ! 3 = Fulfilled v)"
proof -
  have u: "uniqueLinksToCheck sample_links
     = [''https://a.example/ok'', ''https://a.example/missing'', ''https://b.example/down'',
        ''https://c.example/slow'']"
    by (simp add: uniqueLinksToCheck_def sample_links_def)
  note t = every_link_settles [of sample_links sample_net]
  have r: "requests_issued sample_net sample_links = uniqueLinksToCheck sample_links"
    using t by (elim conjE)
  have l: "length (linkCheckResults sample_net sample_links)
             = length (uniqueLinksToCheck sample_links)"
    using t by (elim conjE)
  have a: "\<forall>i < length (uniqueLinksToCheck sample_links).
             (\<exists>v. linkCheckResults sample_net sample_links ! i = Fulfilled v)
           \<and> (\<forall>net'. net' (uniqueLinksToCheck sample_links ! i)
                         = sample_net (uniqueLinksToCheck sample_links ! i)
                  \<longrightarrow> linkCheckResults net' sample_links ! i
                        = linkCheckResults sample_net sample_links ! i)"
    using t by (elim conjE)
  have "(3::nat) < length (uniqueLinksToCheck sample_links)" by (simp add: u)
  with a have "\<exists>v. linkCheckResults sample_net sample_links ! 3 = Fulfilled v" by blast
  with r l show ?thesis by (simp add: u)
qed

text \<open>
  C7. A link that occurs \<open>N \<ge> 1\<close> times on the page is requested exactly once, and
  \<^verbatim>\<open>brokenLinks\<close> holds at most one record for it.
\<close>

theorem one_request_per_url:
  assumes "count_list links u = N" and "1 \<le> N"
  shows "count_list (requests_issued net links) u = 1
       \<and> length (filter (\<lambda>e. entry_url e = Some u) (brokenLinks net links)) \<le> 1"
proof -
  have uin: "u \<in> set links" using assms by (metis count_list_0_iff not_one_le_zero)
  have "count_list (uniqueLinksToCheck links) u = 1"
    using uin uniqueLinksToCheck_distinct [of links] uniqueLinksToCheck_set [of links]
    by (simp add: count_list_distinct_member)
  moreover have "length (entries_of (fst (check_link net u []))) \<le> 1"
    by (simp add: entries_of_def split: promise.splits option.splits)
  ultimately show ?thesis
    using brokenLinks_for_url [OF uin, of net] by (simp add: requests_issued_unique)
qed

theorem one_request_per_url_witness:
  "count_list sample_links ''https://a.example/missing'' = 2
   \<and> count_list (requests_issued sample_net sample_links) ''https://a.example/missing'' = 1
   \<and> length (filter (\<lambda>e. entry_url e = Some ''https://a.example/missing'')
               (brokenLinks sample_net sample_links)) \<le> 1"
proof -
  have c: "count_list sample_links ''https://a.example/missing'' = 2"
    by (simp add: sample_links_def)
  show ?thesis
    using one_request_per_url [OF c, of sample_net] c by simp
qed

lemma then_handler_type:
  "then_handler link st = Some r \<Longrightarrow> type r = ''Client Error''"
  by (auto simp: then_handler_def split: if_splits)

lemma catch_handler_type:
  "type (catch_handler link error) = ''Client Error''
   \<or> type (catch_handler link error) = ''Server Error''
   \<or> type (catch_handler link error) = ''Network Issue''
   \<or> type (catch_handler link error) = ''Unknown Axios Error''
   \<or> type (catch_handler link error) = ''Non-Axios Error''"
  by (simp add: catch_handler_def split: fault.splits option.splits)

lemma check_link_cases:
  "fst (check_link net link log) = Fulfilled (Some r) \<Longrightarrow>
     (\<exists>st. then_handler link st = Some r) \<or> (\<exists>error. r = catch_handler link error)"
  by (auto simp: check_link_def axios_get_def promise_then_def promise_catch_def settle_def
      split: transport_result.splits if_splits)

lemma check_link_type:
  assumes "fst (check_link net link log) = Fulfilled (Some r)"
  shows "type r = ''Client Error'' \<or> type r = ''Server Error'' \<or> type r = ''Network Issue''
       \<or> type r = ''Unknown Axios Error'' \<or> type r = ''Non-Axios Error''"
  using check_link_cases [OF assms] then_handler_type catch_handler_type by blast

lemma brokenLinks_types:
  assumes "Outcome r \<in> set (brokenLinks net links)"
  shows "type r = ''Client Error'' \<or> type r = ''Server Error'' \<or> type r = ''Network Issue''
       \<or> type r = ''Unknown Axios Error'' \<or> type r = ''Non-Axios Error''"
proof -
  from assms obtain l where "Outcome r \<in> set (entries_of (fst (check_link net l [])))"
    by (auto simp: brokenLinks_concat)
  then have "fst (check_link net l []) = Fulfilled (Some r)"
    by (auto simp: entries_of_def split: promise.splits option.splits)
  then show ?thesis by (rule check_link_type)
qed

lemma all_outcomes_map:
  "(\<And>e. e \<in> set es \<Longrightarrow> \<exists>r. e = Outcome r) \<Longrightarrow> \<exists>rs. es = map Outcome rs"
proof (induction es)
  case Nil
  show ?case by simp
next
  case (Cons e es)
  then obtain r rs where "e = Outcome r" "es = map Outcome rs" by (metis list.set_intros)
  then have "e # es = map Outcome (r # rs)" by simp
  then show ?case by (rule exI)
qed

text \<open>
  C9. \<^verbatim>\<open>brokenLinks\<close> is a list of records. \<^verbatim>\<open>confirmedBrokenLinksCount\<close> is the
  number of its records of type \<^verbatim>\<open>Client Error\<close> or \<^verbatim>\<open>Server Error\<close>, and
  \<^verbatim>\<open>networkIssueLinksCount\<close> is the number of its records of type
  \<^verbatim>\<open>Network Issue\<close>: no record has the type \<^verbatim>\<open>Connection Problem\<close>, so the second
  disjunct of the scoring filter never selects anything.
\<close>

theorem counts_by_record_type:
  "\<exists>rs. brokenLinks net links = map Outcome rs
      \<and> confirmedBrokenLinksCount (brokenLinks net links)
          = length (filter (\<lambda>r. type r = ''Client Error'' \<or> type r = ''Server Error'') rs)
      \<and> networkIssueLinksCount (brokenLinks net links)
          = length (filter (\<lambda>r. type r = ''Network Issue'') rs)
      \<and> (\<forall>r \<in> set rs. type r \<noteq> ''Connection Problem'')"
proof -
  obtain rs where rs: "brokenLinks net links = map Outcome rs"
    using all_outcomes_map [of "brokenLinks net links"] brokenLinks_are_outcomes by blast
  have ty: "type r \<noteq> ''Connection Problem''" if "r \<in> set rs" for r
  proof -
    from that rs have "Outcome r \<in> set (brokenLinks net links)" by simp
    from brokenLinks_types [OF this] show ?thesis by auto
  qed
  have c: "confirmedBrokenLinksCount (map Outcome rs)
          = length (filter (\<lambda>r. type r = ''Client Error'' \<or> type r = ''Server Error'') rs)"
    by (simp add: confirmedBrokenLinksCount_def filter_map comp_def entry_type_def)
  have "filter (\<lambda>r. type r = ''Network Issue'' \<or> type r = ''Connection Problem'') rs
        = filter (\<lambda>r. type r = ''Network Issue'') rs"
    using ty by (intro filter_cong) auto
  then have n: "networkIssueLinksCount (map Outcome rs)
          = length (filter (\<lambda>r. type r = ''Network Issue'') rs)"
    by (simp add: networkIssueLinksCount_def filter_map comp_def entry_type_def)
  show ?thesis using rs c n ty by auto
qed

theorem counts_by_record_type_witness:
  "confirmedBrokenLinksCount (brokenLinks sample_net sample_links) = 2
   \<and> networkIssueLinksCount (brokenLinks sample_net sample_links) = 1"
proof -
  have bl: "brokenLinks sample_net sample_links =
    [Outcome \<lparr>url = ''https://a.example/missing'', status = Code 404, type = ''Client Error''\<rparr>,
     Outcome \<lparr>url = ''https://b.example/down'', status = Code 503, type = ''Server Error''\<rparr>,
     Outcome \<lparr>url = ''https://c.example/slow'', status = Label ''Timeout'', type = ''Network Issue''\<rparr>]"
    by (simp add: brokenLinks_def linkCheckResults_def allSettled_def uniqueLinksToCheck_def
        sample_links_def sample_net_def check_link_def axios_get_def maxContentLength_def
        settle_def validateStatus_def
        promise_then_def promise_catch_def then_handler_def catch_handler_def)
  obtain rs where rs: "brokenLinks sample_net sample_links = map Outcome rs"
    and c: "confirmedBrokenLinksCount (brokenLinks sample_net sample_links)
          = length (filter (\<lambda>r. type r = ''Client Error'' \<or> type r = ''Server Error'') rs)"
    and n: "networkIssueLinksCount (brokenLinks sample_net sample_links)
          = length (filter (\<lambda>r. type r = ''Network Issue'') rs)"
    using counts_by_record_type [of sample_net sample_links] by blast
  from rs bl have "rs =
    [\<lparr>url = ''https://a.example/missing'', status = Code 404, type = ''Client Error''\<rparr>,
     \<lparr>url = ''https://b.example/down'', status = Code 503, type = ''Server Error''\<rparr>,
     \<lparr>url = ''https://c.example/slow'', status = Label ''Timeout'', type = ''Network Issue''\<rparr>]"
    by (auto simp: map_eq_Cons_conv)
  with c n show ?thesis by simp
qed

section \<open>The failure taxonomy\<close>

lemma check_link_rejected_status:
  assumes "net link = Responded st len" "len \<le> maxContentLength" "500 \<le> st"
  shows "fst (check_link net link log)
           = Fulfilled (Some (catch_handler link (AxiosError (Some st) True
                (if st div 100 = 5 then Some ''ERR_BAD_RESPONSE'' else None)
                (''Request failed with status code '' @ string_of_nat st))))"
proof -
  have "st div 100 \<noteq> 4" using assms(3) by simp
  then show ?thesis
    using assms
    by (simp add: check_link_def axios_get_def settle_def validateStatus_def
      promise_then_def promise_catch_def)
qed

text \<open>
  C3. A failure that carries a response with status at least 500 gives a record of type
  \<^verbatim>\<open>Server Error\<close> with that numeric status; this is also what a link that answers
  with such a status and a body within \<^verbatim>\<open>maxContentLength\<close> gets, since the status is
  not accepted and the request is rejected with the response. A failure with a request but no response gives a record of type
  \<^verbatim>\<open>Network Issue\<close> whose status label follows the fault code: \<^verbatim>\<open>ECONNABORTED\<close> or
  \<^verbatim>\<open>ETIMEDOUT\<close> give \<^verbatim>\<open>Timeout\<close>, \<^verbatim>\<open>ENOTFOUND\<close> gives
  \<^verbatim>\<open>DNS Resolution Failed\<close>, \<^verbatim>\<open>ECONNREFUSED\<close> gives \<^verbatim>\<open>Connection Refused\<close>,
  \<^verbatim>\<open>ERR_NETWORK\<close> gives \<^verbatim>\<open>Generic Network Error\<close>, and any other fault gives a
  label that ends with the fault code, or with the fault message when there is no code.
\<close>

theorem failure_taxonomy:
  "(500 \<le> st \<longrightarrow>
      catch_handler link (AxiosError (Some st) req cd msg)
        = \<lparr>url = link, status = Code st, type = ''Server Error''\<rparr>
      \<and> (net link = Responded st len \<and> len \<le> maxContentLength \<longrightarrow>
           fst (check_link net link log)
             = Fulfilled (Some \<lparr>url = link, status = Code st, type = ''Server Error''\<rparr>)))
   \<and> (cd = Some ''ECONNABORTED'' \<or> cd = Some ''ETIMEDOUT'' \<longrightarrow>
        catch_handler link (AxiosError None True cd msg)
          = \<lparr>url = link, status = Label ''Timeout'', type = ''Network Issue''\<rparr>)
   \<and> (cd = Some ''ENOTFOUND'' \<longrightarrow>
        catch_handler link (AxiosError None True cd msg)
          = \<lparr>url = link, status = Label ''DNS Resolution Failed'', type = ''Network Issue''\<rparr>)
   \<and> (cd = Some ''ECONNREFUSED'' \<longrightarrow>
        catch_handler link (AxiosError None True cd msg)
          = \<lparr>url = link, status = Label ''Connection Refused'', type = ''Network Issue''\<rparr>)
   \<and> (cd = Some ''ERR_NETWORK'' \<longrightarrow>
        catch_handler link (AxiosError None True cd msg)
          = \<lparr>url = link, status = Label ''Generic Network Error'', type = ''Network Issue''\<rparr>)
   \<and> (cd \<noteq> Some ''ECONNABORTED'' \<and> cd \<noteq> Some ''ETIMEDOUT'' \<and> cd \<noteq> Some ''ENOTFOUND''
        \<and> cd \<noteq> Some ''ECONNREFUSED'' \<and> cd \<noteq> Some ''ERR_NETWORK'' \<longrightarrow>
        catch_handler link (AxiosError None True cd msg)
          = \<lparr>url = link,
             status = Label (''Axios Request Error: ''
                              @ (case cd of None \<Rightarrow> msg
                                 | Some c \<Rightarrow> if c \<noteq> [] then c else msg)),
             type = ''Network Issue''\<rparr>)"
proof (intro conjI impI)
  assume st: "500 \<le> st"
  then show h: "catch_handler link (AxiosError (Some st) req cd msg)
        = \<lparr>url = link, status = Code st, type = ''Server Error''\<rparr>"
    by (simp add: catch_handler_def)
  assume "net link = Responded st len \<and> len \<le> maxContentLength"
  then have "fst (check_link net link log)
           = Fulfilled (Some (catch_handler link (AxiosError (Some st) True
                (if st div 100 = 5 then Some ''ERR_BAD_RESPONSE'' else None)
                (''Request failed with status code '' @ string_of_nat st))))"
    using st check_link_rejected_status [of net link st len log] by blast
  also have "catch_handler link (AxiosError (Some st) True
                (if st div 100 = 5 then Some ''ERR_BAD_RESPONSE'' else None)
                (''Request failed with status code '' @ string_of_nat st))
             = \<lparr>url = link, status = Code st, type = ''Server Error''\<rparr>"
    using st by (simp add: catch_handler_def)
  finally show "fst (check_link net link log)
             = Fulfilled (Some \<lparr>url = link, status = Code st, type = ''Server Error''\<rparr>)" .
next
  assume "cd = Some ''ECONNABORTED'' \<or> cd = Some ''ETIMEDOUT''"
  then show "catch_handler link (AxiosError None True cd msg)
          = \<lparr>url = link, status = Label ''Timeout'', type = ''Network Issue''\<rparr>"
    by (auto simp: catch_handler_def)
next
  assume "cd = Some ''ENOTFOUND''"
  then show "catch_handler link (AxiosError None True cd msg)
          = \<lparr>url = link, status = Label ''DNS Resolution Failed'', type = ''Network Issue''\<rparr>"
    by (simp add: catch_handler_def)
next
  assume "cd = Some ''ECONNREFUSED''"
  then show "catch_handler link (AxiosError None True cd msg)
          = \<lparr>url = link, status = Label ''Connection Refused'', type = ''Network Issue''\<rparr>"
    by (simp add: catch_handler_def)
next
  assume "cd = Some ''ERR_NETWORK''"
  then show "catch_handler link (AxiosError None True cd msg)
          = \<lparr>url = link, status = Label ''Generic Network Error'', type = ''Network Issue''\<rparr>"
    by (simp add: catch_handler_def)
next
  assume "cd \<noteq> Some ''ECONNABORTED'' \<and> cd \<noteq> Some ''ETIMEDOUT'' \<and> cd \<noteq> Some ''ENOTFOUND''
        \<and> cd \<noteq> Some ''ECONNREFUSED'' \<and> cd \<noteq> Some ''ERR_NETWORK''"
  then show "catch_handler link (AxiosError None True cd msg)
          = \<lparr>url = link,
             status = Label (''Axios Request Error: ''
                              @ (case cd of None \<Rightarrow> msg
                                 | Some c \<Rightarrow> if c \<noteq> [] then c else msg)),
             type = ''Network Issue''\<rparr>"
    by (simp add: catch_handler_def code_or_message_def or_else_def split: option.splits)
qed

theorem failure_taxonomy_witness:
  "fst (check_link sample_net ''https://b.example/down'' [])
     = Fulfilled (Some \<lparr>url = ''https://b.example/down'', status = Code 503,
                        type = ''Server Error''\<rparr>)
   \<and> catch_handler ''https://c.example/slow''
        (AxiosError None True (Some ''ETIMEDOUT'') ''timeout of 10000ms exceeded'')
       = \<lparr>url = ''https://c.example/slow'', status = Label ''Timeout'', type = ''Network Issue''\<rparr>
   \<and> catch_handler ''https://nowhere.example/''
        (AxiosError None True (Some ''ENOTFOUND'') ''getaddrinfo ENOTFOUND nowhere.example'')
       = \<lparr>url = ''https://nowhere.example/'', status = Label ''DNS Resolution Failed'',
          type = ''Network Issue''\<rparr>
   \<and> catch_handler ''https://closed.example/''
        (AxiosError None True (Some ''ECONNREFUSED'') ''connect ECONNREFUSED'')
       = \<lparr>url = ''https://closed.example/'', status = Label ''Connection Refused'',
          type = ''Network Issue''\<rparr>
   \<and> catch_handler ''https://net.example/''
        (AxiosError None True (Some ''ERR_NETWORK'') ''Network Error'')
       = \<lparr>url = ''https://net.example/'', status = Label ''Generic Network Error'',
          type = ''Network Issue''\<rparr>
   \<and> catch_handler ''https://reset.example/''
        (AxiosError None True (Some ''ECONNRESET'') ''socket hang up'')
       = \<lparr>url = ''https://reset.example/'', status = Label ''Axios Request Error: ECONNRESET'',
          type = ''Network Issue''\<rparr>
   \<and> catch_handler ''https://odd.example/'' (AxiosError None True None ''stream aborted'')
       = \<lparr>url = ''https://odd.example/'', status = Label ''Axios Request Error: stream aborted'',
          type = ''Network Issue''\<rparr>"
  using
    failure_taxonomy [where st = 503 and link = "''https://b.example/down''" and req = True
      and cd = "Some ''ERR_BAD_RESPONSE''" and msg = "''Request failed with status code 503''"
      and net = sample_net and len = 0 and log = "[]"]
    failure_taxonomy [where st = 503 and link = "''https://c.example/slow''" and req = True
      and cd = "Some ''ETIMEDOUT''" and msg = "''timeout of 10000ms exceeded''"
      and net = sample_net and len = 0 and log = "[]"]
    failure_taxonomy [where st = 503 and link = "''https://nowhere.example/''" and req = True
      and cd = "Some ''ENOTFOUND''" and msg = "''getaddrinfo ENOTFOUND nowhere.example''"
      and net = sample_net and len = 0 and log = "[]"]
    failure_taxonomy [where st = 503 and link = "''https://closed.example/''" and req = True
      and cd = "Some ''ECONNREFUSED''" and msg = "''connect ECONNREFUSED''"
      and net = sample_net and len = 0 and log = "[]"]
    failure_taxonomy [where st = 503 and link = "''https://net.example/''" and req = True
      and cd = "Some ''ERR_NETWORK''" and msg = "''Network Error''"
      and net = sample_net and len = 0 and log = "[]"]
    failure_taxonomy [where st = 503 and link = "''https://reset.example/''" and req = True
      and cd = "Some ''ECONNRESET''" and msg = "''socket hang up''"
      and net = sample_net and len = 0 and log = "[]"]
    failure_taxonomy [where st = 503 and link = "''https://odd.example/''" and req = True
      and cd = "None" and msg = "''stream aborted''"
      and net = sample_net and len = 0 and log = "[]"]
  by (simp add: sample_net_def maxContentLength_def)

text \<open>
  C4, as stated: a failure with neither response nor request gets the fault message as
  its status label. This fails for a fault whose message is empty: the label is then the
  fixed text \<^verbatim>\<open>Axios Setup Error\<close>.
\<close>

theorem setup_error_label_counterexample:
  "status (catch_handler ''https://a.example/x'' (AxiosError None False None []))
     \<noteq> Label (message (AxiosError None False None []))"
  by (simp add: catch_handler_def or_else_def)

text \<open>
  C4, amended. An Axios failure with neither a response nor a request gives a record of
  type \<^verbatim>\<open>Unknown Axios Error\<close> (the category for a request that could not be set up)
  whose status label is the fault message when that message is not empty and
  \<^verbatim>\<open>Axios Setup Error\<close> when it is empty. A fault that is not an Axios error gives a
  record of type \<^verbatim>\<open>Non-Axios Error\<close> (the category for an unknown error) whose status
  label is the fault message when it is not empty and \<^verbatim>\<open>Unknown Error\<close> otherwise.
\<close>

theorem setup_and_unknown_errors:
  "catch_handler link (AxiosError None False cd msg)
     = \<lparr>url = link, status = Label (if msg \<noteq> [] then msg else ''Axios Setup Error''),
        type = ''Unknown Axios Error''\<rparr>
   \<and> catch_handler link (OtherError msg)
     = \<lparr>url = link, status = Label (if msg \<noteq> [] then msg else ''Unknown Error''),
        type = ''Non-Axios Error''\<rparr>"
  by (simp add: catch_handler_def or_else_def)

section \<open>Properties of the anchor traversal\<close>

lemma starts_with_iff: "starts_with s pat \<longleftrightarrow> (\<exists>q. s = pat @ q)"
  by (induction s pat rule: starts_with.induct) auto

lemma includes_str_iff: "includes_str s pat \<longleftrightarrow> (\<exists>p q. s = p @ pat @ q)"
proof (induction s)
  case Nil
  show ?case by simp
next
  case (Cons c cs)
  have "(\<exists>p q. c # cs = p @ pat @ q) \<longleftrightarrow> (\<exists>q. c # cs = pat @ q) \<or> (\<exists>p q. cs = p @ pat @ q)"
  proof
    assume "\<exists>p q. c # cs = p @ pat @ q"
    then obtain p q where pq: "c # cs = p @ pat @ q" by blast
    show "(\<exists>q. c # cs = pat @ q) \<or> (\<exists>p q. cs = p @ pat @ q)"
    proof (cases p)
      case Nil
      with pq show ?thesis by auto
    next
      case (Cons a p')
      with pq have "cs = p' @ pat @ q" by simp
      then show ?thesis by blast
    qed
  next
    assume "(\<exists>q. c # cs = pat @ q) \<or> (\<exists>p q. cs = p @ pat @ q)"
    then show "\<exists>p q. c # cs = p @ pat @ q"
    proof
      assume "\<exists>q. c # cs = pat @ q"
      then obtain q where "c # cs = [] @ pat @ q" by auto
      then show ?thesis by blast
    next
      assume "\<exists>p q. cs = p @ pat @ q"
      then obtain p q where "c # cs = (c # p) @ pat @ q" by auto
      then show ?thesis by blast
    qed
  qed
  then show ?case using Cons.IH by (simp add: starts_with_iff)
qed

lemma anchor_step_resolved:
  assumes "href_attr el = Some href" "href \<noteq> []" "resolve baseUrl href = Inr absoluteHref"
    "parse absoluteHref = Inr parsedHref"
  shows "anchor_step resolve parse parsedUrl baseUrl st el =
     (let st1 = st\<lparr>allLinks := allLinks st @ [absoluteHref]\<rparr>;
          rel = (case rel_attr el of None \<Rightarrow> [] | Some r \<Rightarrow> r)
      in if protocol parsedHref = protocol parsedUrl \<and> host parsedHref = host parsedUrl
         then st1\<lparr>internalLinks := internalLinks st1 @ [absoluteHref]\<rparr>
         else if includes_str rel ''nofollow'' \<or> includes_str rel ''ugc''
                 \<or> includes_str rel ''sponsored''
         then st1\<lparr>externalNofollowLinks := externalNofollowLinks st1 @ [absoluteHref]\<rparr>
         else st1\<lparr>externalDofollowLinks := externalDofollowLinks st1 @ [absoluteHref]\<rparr>)"
proof -
  have "(case rel_attr el of None \<Rightarrow> [] | Some r \<Rightarrow> or_else r []) 
        = (case rel_attr el of None \<Rightarrow> [] | Some r \<Rightarrow> r)"
    by (simp add: or_else_def split: option.splits)
  then show ?thesis using assms by (simp add: anchor_step_def Let_def)
qed

lemma anchor_step_partition:
  assumes "\<And>u. \<exists>p. parse u = Inr p"
    and "mset (internalLinks st) + mset (externalDofollowLinks st)
           + mset (externalNofollowLinks st) = mset (allLinks st)"
  shows "mset (internalLinks (anchor_step resolve parse parsedUrl baseUrl st el))
       + mset (externalDofollowLinks (anchor_step resolve parse parsedUrl baseUrl st el))
       + mset (externalNofollowLinks (anchor_step resolve parse parsedUrl baseUrl st el))
       = mset (allLinks (anchor_step resolve parse parsedUrl baseUrl st el))"
proof (cases "href_attr el")
  case None
  then show ?thesis using assms(2) by (simp add: anchor_step_def)
next
  case (Some href)
  show ?thesis
  proof (cases "href = []")
    case True
    then show ?thesis using Some assms(2) by (simp add: anchor_step_def)
  next
    case False
    show ?thesis
    proof (cases "resolve baseUrl href")
      case (Inl e)
      then show ?thesis using Some False assms(2) by (simp add: anchor_step_def)
    next
      case (Inr a)
      obtain p where "parse a = Inr p" using assms(1) by blast
      from anchor_step_resolved [where resolve = resolve and parse = parse
          and baseUrl = baseUrl and absoluteHref = a and href = href, OF Some False Inr this]
        assms(2)
      show ?thesis by (simp add: Let_def)
    qed
  qed
qed

lemma foldl_anchor_step_partition:
  assumes "\<And>u. \<exists>p. parse u = Inr p"
    and "mset (internalLinks st) + mset (externalDofollowLinks st)
           + mset (externalNofollowLinks st) = mset (allLinks st)"
  shows "mset (internalLinks (foldl (anchor_step resolve parse parsedUrl baseUrl) st anchors))
       + mset (externalDofollowLinks (foldl (anchor_step resolve parse parsedUrl baseUrl) st anchors))
       + mset (externalNofollowLinks (foldl (anchor_step resolve parse parsedUrl baseUrl) st anchors))
       = mset (allLinks (foldl (anchor_step resolve parse parsedUrl baseUrl) st anchors))"
  using assms(2)
proof (induction anchors arbitrary: st)
  case Nil
  then show ?case by simp
next
  case (Cons el anchors)
  have "mset (internalLinks (anchor_step resolve parse parsedUrl baseUrl st el))
       + mset (externalDofollowLinks (anchor_step resolve parse parsedUrl baseUrl st el))
       + mset (externalNofollowLinks (anchor_step resolve parse parsedUrl baseUrl st el))
       = mset (allLinks (anchor_step resolve parse parsedUrl baseUrl st el))"
    using assms(1) Cons.prems by (rule anchor_step_partition)
  from Cons.IH [OF this] show ?case by simp
qed

lemmas url_eval = node_url_parse_def node_host_def proto_char_def is_digit_def to_lower_def
  host_ending_char_def sample_resolve_def sample_parse_def

lemma anchor_step_no_href:
  "href_attr el = None \<or> href_attr el = Some [] \<Longrightarrow>
     anchor_step resolve parse parsedUrl baseUrl st el = st"
  by (auto simp: anchor_step_def)

text \<open>
  C5. For an anchor whose \<^verbatim>\<open>href\<close> resolves and parses, the resolved link is appended to
  \<^verbatim>\<open>internalLinks\<close> if and only if its parsed protocol and host both equal those of the
  page, and it is appended to exactly one of \<^verbatim>\<open>internalLinks\<close>,
  \<^verbatim>\<open>externalDofollowLinks\<close> and \<^verbatim>\<open>externalNofollowLinks\<close>, the other two staying as
  they were. Over a whole page, when parsing never throws, the three lists together hold
  the links of \<^verbatim>\<open>allLinks\<close>, each as often as it occurs there.
\<close>

theorem link_classification:
  "(href_attr el = Some href \<and> href \<noteq> [] \<and> resolve baseUrl href = Inr absoluteHref
      \<and> parse absoluteHref = Inr parsedHref \<longrightarrow>
     (let st' = anchor_step resolve parse parsedUrl baseUrl st el in
        allLinks st' = allLinks st @ [absoluteHref]
      \<and> (internalLinks st' = internalLinks st @ [absoluteHref]
           \<longleftrightarrow> protocol parsedHref = protocol parsedUrl \<and> host parsedHref = host parsedUrl)
      \<and> (internalLinks st' = internalLinks st @ [absoluteHref]
            \<and> externalDofollowLinks st' = externalDofollowLinks st
            \<and> externalNofollowLinks st' = externalNofollowLinks st
          \<or> internalLinks st' = internalLinks st
            \<and> externalDofollowLinks st' = externalDofollowLinks st @ [absoluteHref]
            \<and> externalNofollowLinks st' = externalNofollowLinks st
          \<or> internalLinks st' = internalLinks st
            \<and> externalDofollowLinks st' = externalDofollowLinks st
            \<and> externalNofollowLinks st' = externalNofollowLinks st @ [absoluteHref])))
   \<and> ((\<forall>u. \<exists>p. parse u = Inr p) \<longrightarrow>
        (let t = traverse_anchors resolve parse parsedUrl baseUrl anchors in
           mset (internalLinks t) + mset (externalDofollowLinks t)
             + mset (externalNofollowLinks t) = mset (allLinks t)))"
proof (intro conjI impI)
  assume "href_attr el = Some href \<and> href \<noteq> [] \<and> resolve baseUrl href = Inr absoluteHref
      \<and> parse absoluteHref = Inr parsedHref"
  then have s: "anchor_step resolve parse parsedUrl baseUrl st el =
     (let st1 = st\<lparr>allLinks := allLinks st @ [absoluteHref]\<rparr>;
          rel = (case rel_attr el of None \<Rightarrow> [] | Some r \<Rightarrow> r)
      in if protocol parsedHref = protocol parsedUrl \<and> host parsedHref = host parsedUrl
         then st1\<lparr>internalLinks := internalLinks st1 @ [absoluteHref]\<rparr>
         else if includes_str rel ''nofollow'' \<or> includes_str rel ''ugc''
                 \<or> includes_str rel ''sponsored''
         then st1\<lparr>externalNofollowLinks := externalNofollowLinks st1 @ [absoluteHref]\<rparr>
         else st1\<lparr>externalDofollowLinks := externalDofollowLinks st1 @ [absoluteHref]\<rparr>)"
    using anchor_step_resolved by blast
  show "let st' = anchor_step resolve parse parsedUrl baseUrl st el in
        allLinks st' = allLinks st @ [absoluteHref]
      \<and> (internalLinks st' = internalLinks st @ [absoluteHref]
           \<longleftrightarrow> protocol parsedHref = protocol parsedUrl \<and> host parsedHref = host parsedUrl)
      \<and> (internalLinks st' = internalLinks st @ [absoluteHref]
            \<and> externalDofollowLinks st' = externalDofollowLinks st
            \<and> externalNofollowLinks st' = externalNofollowLinks st
          \<or> internalLinks st' = internalLinks st
            \<and> externalDofollowLinks st' = externalDofollowLinks st @ [absoluteHref]
            \<and> externalNofollowLinks st' = externalNofollowLinks st
          \<or> internalLinks st' = internalLinks st
            \<and> externalDofollowLinks st' = externalDofollowLinks st
            \<and> externalNofollowLinks st' = externalNofollowLinks st @ [absoluteHref])"
    unfolding s by (simp add: Let_def)
next
  assume "\<forall>u. \<exists>p. parse u = Inr p"
  then have p: "\<And>u. \<exists>p. parse u = Inr p" by blast
  have "mset (internalLinks no_links) + mset (externalDofollowLinks no_links)
           + mset (externalNofollowLinks no_links) = mset (allLinks no_links)"
    by (simp add: no_links_def)
  from foldl_anchor_step_partition [OF p this]
  show "let t = traverse_anchors resolve parse parsedUrl baseUrl anchors in
           mset (internalLinks t) + mset (externalDofollowLinks t)
             + mset (externalNofollowLinks t) = mset (allLinks t)"
    by (simp add: traverse_anchors_def Let_def)
qed


theorem link_classification_witness:
  "internalLinks (anchor_step sample_resolve sample_parse (node_url_parse ''https://example.com'')
       ''https://example.com'' no_links \<lparr>href_attr = Some ''/about'', rel_attr = None\<rparr>)
     = [''https://example.com/about'']
   \<and> internalLinks (anchor_step sample_resolve sample_parse (node_url_parse ''https://example.com'')
       ''https://example.com'' no_links
       \<lparr>href_attr = Some ''https://other.com/y'', rel_attr = None\<rparr>)
     = []
   \<and> mset (internalLinks (traverse_anchors sample_resolve sample_parse
             (node_url_parse ''https://example.com'') ''https://example.com'' sample_anchors))
     + mset (externalDofollowLinks (traverse_anchors sample_resolve sample_parse
             (node_url_parse ''https://example.com'') ''https://example.com'' sample_anchors))
     + mset (externalNofollowLinks (traverse_anchors sample_resolve sample_parse
             (node_url_parse ''https://example.com'') ''https://example.com'' sample_anchors))
     = mset (allLinks (traverse_anchors sample_resolve sample_parse
             (node_url_parse ''https://example.com'') ''https://example.com'' sample_anchors))"
proof -
  have base: "node_url_parse ''https://example.com''
                = \<lparr>protocol = Some ''https:'', host = Some ''example.com''\<rparr>"
    by (simp add: url_eval)
  have r1: "sample_resolve ''https://example.com'' ''/about'' = Inr ''https://example.com/about''"
    by (simp add: url_eval)
  have p1: "sample_parse ''https://example.com/about''
              = Inr \<lparr>protocol = Some ''https:'', host = Some ''example.com''\<rparr>"
    by (simp add: url_eval)
  have r2: "sample_resolve ''https://example.com'' ''https://other.com/y''
              = Inr ''https://other.com/y''"
    by (simp add: url_eval)
  have p2: "sample_parse ''https://other.com/y''
              = Inr \<lparr>protocol = Some ''https:'', host = Some ''other.com''\<rparr>"
    by (simp add: url_eval)
  have total: "\<forall>u. \<exists>p. sample_parse u = Inr p" by (simp add: sample_parse_def)
  note t1 = link_classification [where el = "\<lparr>href_attr = Some ''/about'', rel_attr = None\<rparr>"
      and href = "''/about''" and resolve = sample_resolve and baseUrl = "''https://example.com''"
      and absoluteHref = "''https://example.com/about''" and parse = sample_parse
      and parsedHref = "\<lparr>protocol = Some ''https:'', host = Some ''example.com''\<rparr>"
      and parsedUrl = "node_url_parse ''https://example.com''" and st = no_links
      and anchors = sample_anchors]
  note t2 = link_classification [where el = "\<lparr>href_attr = Some ''https://other.com/y'', rel_attr = None\<rparr>"
      and href = "''https://other.com/y''" and resolve = sample_resolve
      and baseUrl = "''https://example.com''"
      and absoluteHref = "''https://other.com/y''" and parse = sample_parse
      and parsedHref = "\<lparr>protocol = Some ''https:'', host = Some ''other.com''\<rparr>"
      and parsedUrl = "node_url_parse ''https://example.com''" and st = no_links
      and anchors = sample_anchors]
  have a: "internalLinks (anchor_step sample_resolve sample_parse (node_url_parse ''https://example.com'')
       ''https://example.com'' no_links \<lparr>href_attr = Some ''/about'', rel_attr = None\<rparr>)
     = [''https://example.com/about'']"
    using t1 r1 p1 by (simp add: base Let_def no_links_def)
  have b: "internalLinks (anchor_step sample_resolve sample_parse (node_url_parse ''https://example.com'')
       ''https://example.com'' no_links
       \<lparr>href_attr = Some ''https://other.com/y'', rel_attr = None\<rparr>)
     = []"
    using t2 r2 p2 by (auto simp add: base Let_def no_links_def)
  have c: "mset (internalLinks (traverse_anchors sample_resolve sample_parse
             (node_url_parse ''https://example.com'') ''https://example.com'' sample_anchors))
     + mset (externalDofollowLinks (traverse_anchors sample_resolve sample_parse
             (node_url_parse ''https://example.com'') ''https://example.com'' sample_anchors))
     + mset (externalNofollowLinks (traverse_anchors sample_resolve sample_parse
             (node_url_parse ''https://example.com'') ''https://example.com'' sample_anchors))
     = mset (allLinks (traverse_anchors sample_resolve sample_parse
             (node_url_parse ''https://example.com'') ''https://example.com'' sample_anchors))"
    using t1 total by (simp add: Let_def)
  from a b c show ?thesis by blast
qed

text \<open>
  C6. For an anchor whose resolved link is not internal, the link goes to
  \<^verbatim>\<open>externalNofollowLinks\<close> if and only if its \<^verbatim>\<open>rel\<close> value contains
  \<^verbatim>\<open>nofollow\<close>, \<^verbatim>\<open>ugc\<close> or \<^verbatim>\<open>sponsored\<close> as a contiguous run of characters,
  compared exactly; otherwise, and in particular when \<^verbatim>\<open>rel\<close> is absent, it goes to
  \<^verbatim>\<open>externalDofollowLinks\<close>.
\<close>

theorem follow_policy:
  assumes "href_attr el = Some href" and "href \<noteq> []"
    and "resolve baseUrl href = Inr absoluteHref" and "parse absoluteHref = Inr parsedHref"
    and "\<not> (protocol parsedHref = protocol parsedUrl \<and> host parsedHref = host parsedUrl)"
  shows "let st' = anchor_step resolve parse parsedUrl baseUrl st el;
             rel = (case rel_attr el of None \<Rightarrow> [] | Some r \<Rightarrow> r);
             unfollowed = ((\<exists>p q. rel = p @ ''nofollow'' @ q) \<or> (\<exists>p q. rel = p @ ''ugc'' @ q)
                           \<or> (\<exists>p q. rel = p @ ''sponsored'' @ q))
         in (unfollowed \<longleftrightarrow>
               externalNofollowLinks st' = externalNofollowLinks st @ [absoluteHref]
               \<and> externalDofollowLinks st' = externalDofollowLinks st)
          \<and> (\<not> unfollowed \<longleftrightarrow>
               externalDofollowLinks st' = externalDofollowLinks st @ [absoluteHref]
               \<and> externalNofollowLinks st' = externalNofollowLinks st)
          \<and> (rel_attr el = None \<longrightarrow>
               externalDofollowLinks st' = externalDofollowLinks st @ [absoluteHref])"
proof -
  note s = anchor_step_resolved [where resolve = resolve and parse = parse
      and baseUrl = baseUrl and absoluteHref = absoluteHref and href = href
      and parsedUrl = parsedUrl and st = st, OF assms(1-4)]
  have none: "\<not> includes_str [] ''nofollow''" "\<not> includes_str [] ''ugc''"
    "\<not> includes_str [] ''sponsored''" by simp_all
  show ?thesis
    unfolding s includes_str_iff [symmetric] Let_def
    using assms(5) none by (auto split: option.splits)
qed


theorem follow_policy_witness:
  "externalNofollowLinks (anchor_step sample_resolve sample_parse
       (node_url_parse ''https://example.com'') ''https://example.com'' no_links
       \<lparr>href_attr = Some ''https://other.com/x'', rel_attr = Some ''noopener nofollow''\<rparr>)
     = [''https://other.com/x'']
   \<and> externalDofollowLinks (anchor_step sample_resolve sample_parse
       (node_url_parse ''https://example.com'') ''https://example.com'' no_links
       \<lparr>href_attr = Some ''https://other.com/x'', rel_attr = Some ''NoFollow''\<rparr>)
     = [''https://other.com/x'']
   \<and> externalDofollowLinks (anchor_step sample_resolve sample_parse
       (node_url_parse ''https://example.com'') ''https://example.com'' no_links
       \<lparr>href_attr = Some ''https://other.com/x'', rel_attr = None\<rparr>)
     = [''https://other.com/x'']"
proof -
  have base: "node_url_parse ''https://example.com''
                = \<lparr>protocol = Some ''https:'', host = Some ''example.com''\<rparr>"
    by (simp add: url_eval)
  have r: "sample_resolve ''https://example.com'' ''https://other.com/x''
             = Inr ''https://other.com/x''"
    by (simp add: url_eval)
  have p: "sample_parse ''https://other.com/x''
             = Inr \<lparr>protocol = Some ''https:'', host = Some ''other.com''\<rparr>"
    by (simp add: url_eval)
  have ext: "\<not> (protocol \<lparr>protocol = Some ''https:'', host = Some ''other.com''\<rparr>
                  = protocol (node_url_parse ''https://example.com'')
               \<and> host \<lparr>protocol = Some ''https:'', host = Some ''other.com''\<rparr>
                  = host (node_url_parse ''https://example.com''))"
    by (simp add: base)
  have yes: "\<exists>p q. ''noopener nofollow'' = p @ ''nofollow'' @ q"
    unfolding includes_str_iff [symmetric] by simp
  have no: "\<not> (\<exists>p q. ''NoFollow'' = p @ ''nofollow'' @ q)"
    "\<not> (\<exists>p q. ''NoFollow'' = p @ ''ugc'' @ q)"
    "\<not> (\<exists>p q. ''NoFollow'' = p @ ''sponsored'' @ q)"
    unfolding includes_str_iff [symmetric] by simp_all
  have a: "externalNofollowLinks (anchor_step sample_resolve sample_parse
       (node_url_parse ''https://example.com'') ''https://example.com'' no_links
       \<lparr>href_attr = Some ''https://other.com/x'', rel_attr = Some ''noopener nofollow''\<rparr>)
     = [''https://other.com/x'']"
    using follow_policy [where resolve = sample_resolve and parse = sample_parse
        and baseUrl = "''https://example.com''" and href = "''https://other.com/x''"
        and st = no_links
        and el = "\<lparr>href_attr = Some ''https://other.com/x'', rel_attr = Some ''noopener nofollow''\<rparr>",
        OF _ _ r p ext] yes
    by (simp add: Let_def no_links_def)
  have b: "externalDofollowLinks (anchor_step sample_resolve sample_parse
       (node_url_parse ''https://example.com'') ''https://example.com'' no_links
       \<lparr>href_attr = Some ''https://other.com/x'', rel_attr = Some ''NoFollow''\<rparr>)
     = [''https://other.com/x'']"
    using follow_policy [where resolve = sample_resolve and parse = sample_parse
        and baseUrl = "''https://example.com''" and href = "''https://other.com/x''"
        and st = no_links
        and el = "\<lparr>href_attr = Some ''https://other.com/x'', rel_attr = Some ''NoFollow''\<rparr>",
        OF _ _ r p ext] no
    by (simp add: Let_def no_links_def)
  have c: "externalDofollowLinks (anchor_step sample_resolve sample_parse
       (node_url_parse ''https://example.com'') ''https://example.com'' no_links
       \<lparr>href_attr = Some ''https://other.com/x'', rel_attr = None\<rparr>)
     = [''https://other.com/x'']"
    using follow_policy [where resolve = sample_resolve and parse = sample_parse
        and baseUrl = "''https://example.com''" and href = "''https://other.com/x''"
        and st = no_links
        and el = "\<lparr>href_attr = Some ''https://other.com/x'', rel_attr = None\<rparr>",
        OF _ _ r p ext]
    by (simp add: Let_def no_links_def)
  from a b c show ?thesis by blast
qed

text \<open>
  C10. An anchor whose \<^verbatim>\<open>href\<close> is absent or empty leaves all four lists as they are;
  the traversal of a page, the requests issued for it and its \<^verbatim>\<open>brokenLinks\<close> are
  the same as for the page without that anchor.
\<close>

theorem anchor_without_href_is_skipped:
  assumes "href_attr el = None \<or> href_attr el = Some []"
  shows "anchor_step resolve parse parsedUrl baseUrl st el = st
       \<and> traverse_anchors resolve parse parsedUrl baseUrl (before @ el # after)
           = traverse_anchors resolve parse parsedUrl baseUrl (before @ after)
       \<and> check_page resolve parse net parsedUrl baseUrl (before @ el # after)
           = check_page resolve parse net parsedUrl baseUrl (before @ after)"
proof -
  have s: "anchor_step resolve parse parsedUrl baseUrl st el = st" for st
    using assms by (rule anchor_step_no_href)
  then have t: "traverse_anchors resolve parse parsedUrl baseUrl (before @ el # after)
           = traverse_anchors resolve parse parsedUrl baseUrl (before @ after)"
    by (simp add: traverse_anchors_def)
  then show ?thesis using s by (simp add: check_page_def)
qed

theorem anchor_without_href_is_skipped_witness:
  "anchor_step sample_resolve sample_parse (node_url_parse ''https://example.com'')
       ''https://example.com'' no_links \<lparr>href_attr = Some [], rel_attr = Some ''nofollow''\<rparr>
     = no_links
   \<and> check_page sample_resolve sample_parse sample_net (node_url_parse ''https://example.com'')
       ''https://example.com''
       [\<lparr>href_attr = None, rel_attr = None\<rparr>,
        \<lparr>href_attr = Some [], rel_attr = Some ''nofollow''\<rparr>]
     = ([], [])"
proof -
  have e: "check_page sample_resolve sample_parse sample_net (node_url_parse ''https://example.com'')
       ''https://example.com'' [] = ([], [])"
    by (simp add: check_page_def traverse_anchors_def no_links_def requests_issued_def
        brokenLinks_def linkCheckResults_def allSettled_def uniqueLinksToCheck_def)
  have a: "anchor_step sample_resolve sample_parse (node_url_parse ''https://example.com'')
       ''https://example.com'' no_links \<lparr>href_attr = Some [], rel_attr = Some ''nofollow''\<rparr>
     = no_links"
    using anchor_without_href_is_skipped [where el = "\<lparr>href_attr = Some [], rel_attr = Some ''nofollow''\<rparr>"
        and resolve = sample_resolve and parse = sample_parse and st = no_links
        and parsedUrl = "node_url_parse ''https://example.com''"
        and baseUrl = "''https://example.com''" and before = "[]" and after = "[]"
        and net = sample_net]
    by simp
  have "check_page sample_resolve sample_parse sample_net (node_url_parse ''https://example.com'')
       ''https://example.com''
       ([\<lparr>href_attr = None, rel_attr = None\<rparr>]
          @ \<lparr>href_attr = Some [], rel_attr = Some ''nofollow''\<rparr> # [])
     = check_page sample_resolve sample_parse sample_net (node_url_parse ''https://example.com'')
       ''https://example.com'' ([\<lparr>href_attr = None, rel_attr = None\<rparr>] @ [])"
    using anchor_without_href_is_skipped [where el = "\<lparr>href_attr = Some [], rel_attr = Some ''nofollow''\<rparr>"
        and resolve = sample_resolve and parse = sample_parse and st = no_links
        and parsedUrl = "node_url_parse ''https://example.com''"
        and baseUrl = "''https://example.com''"
        and before = "[\<lparr>href_attr = None, rel_attr = None\<rparr>]" and after = "[]"
        and net = sample_net]
    by simp
  also have "\<dots> = check_page sample_resolve sample_parse sample_net
       (node_url_parse ''https://example.com'') ''https://example.com'' ([] @ [])"
    using anchor_without_href_is_skipped [where el = "\<lparr>href_attr = None, rel_attr = None\<rparr>"
        and resolve = sample_resolve and parse = sample_parse and st = no_links
        and parsedUrl = "node_url_parse ''https://example.com''"
        and baseUrl = "''https://example.com''"
        and before = "[]" and after = "[]"
        and net = sample_net]
    by simp
  finally show ?thesis using a e by simp
qed

section \<open>Ports in the origin comparison\<close>

lemma colon_not_proto_char: "\<not> proto_char CHR '':''"
  by (simp add: proto_char_def)

lemma digit_not_host_ending: "is_digit c \<Longrightarrow> \<not> host_ending_char c"
  by (auto simp: is_digit_def host_ending_char_def)

lemma colon_not_digit: "\<not> is_digit CHR '':''"
  by (simp add: is_digit_def)

lemma node_url_parse_slashes:
  assumes "sch \<noteq> []" "\<forall>c\<in>set sch. proto_char c"
  shows "node_url_parse (sch @ ''://'' @ rest)
           = \<lparr>protocol = Some (map to_lower sch @ '':''),
              host = Some (node_host (takeWhile (\<lambda>c. \<not> host_ending_char c) rest))\<rparr>"
proof -
  have p: "\<And>c. c \<in> set sch \<Longrightarrow> proto_char c" using assms(2) by simp
  have t: "takeWhile proto_char (sch @ ''://'' @ rest) = sch"
    using colon_not_proto_char assms(2) by (simp add: takeWhile_append2 [OF p])
  have d: "dropWhile proto_char (sch @ ''://'' @ rest) = ''://'' @ rest"
    using colon_not_proto_char assms(2) by (simp add: dropWhile_append2 [OF p])
  show ?thesis
    unfolding node_url_parse_def t d using assms(1) by simp
qed

lemma node_host_port:
  assumes "port \<noteq> []" "\<forall>c\<in>set port. is_digit c"
  shows "node_host (h @ '':'' @ port) = map to_lower h @ '':'' @ port"
proof -
  have r: "rev (h @ '':'' @ port) = rev port @ CHR '':'' # rev h" by simp
  have p: "\<And>c. c \<in> set (rev port) \<Longrightarrow> is_digit c" using assms(2) by simp
  have "takeWhile is_digit (rev port @ CHR '':'' # rev h)
          = rev port @ takeWhile is_digit (CHR '':'' # rev h)"
    by (rule takeWhile_append2) (rule p)
  then have t: "takeWhile is_digit (rev port @ CHR '':'' # rev h) = rev port"
    by (simp only: takeWhile.simps colon_not_digit if_False append_Nil2)
  have "dropWhile is_digit (rev port @ CHR '':'' # rev h)
          = dropWhile is_digit (CHR '':'' # rev h)"
    by (rule dropWhile_append2) (rule p)
  then have d: "dropWhile is_digit (rev port @ CHR '':'' # rev h) = CHR '':'' # rev h"
    by (simp only: dropWhile.simps colon_not_digit if_False)
  show ?thesis
    unfolding node_host_def r t d using assms(1) by simp
qed

lemma node_host_no_port:
  assumes "\<forall>c\<in>set h. c \<noteq> CHR '':''"
  shows "node_host h = map to_lower h"
proof -
  have "\<not> starts_with (dropWhile is_digit (rev h)) '':''"
  proof
    assume "starts_with (dropWhile is_digit (rev h)) '':''"
    then obtain q where "dropWhile is_digit (rev h) = CHR '':'' # q"
      by (auto simp: starts_with_iff)
    then have "CHR '':'' \<in> set (dropWhile is_digit (rev h))" by simp
    then have "CHR '':'' \<in> set (rev h)" by (rule set_dropWhileD)
    then show False using assms by auto
  qed
  then show ?thesis by (simp add: node_host_def Let_def)
qed

text \<open>
  C8, as stated: a link that differs from the page only by an explicit port is internal.
  This fails for the page \<^verbatim>\<open>http://example.com\<close> and the link
  \<^verbatim>\<open>http://example.com:8080/page\<close>: the parsed \<^verbatim>\<open>host\<close> of the link is
  \<^verbatim>\<open>example.com:8080\<close>, that of the page is \<^verbatim>\<open>example.com\<close>, and the link goes to
  \<^verbatim>\<open>externalDofollowLinks\<close>.
\<close>

theorem port_ignored_counterexample:
  "internalLinks (anchor_step sample_resolve sample_parse (node_url_parse ''http://example.com'')
       ''http://example.com'' no_links
       \<lparr>href_attr = Some ''http://example.com:8080/page'', rel_attr = None\<rparr>)
     \<noteq> [''http://example.com:8080/page'']
   \<and> externalDofollowLinks (anchor_step sample_resolve sample_parse
       (node_url_parse ''http://example.com'') ''http://example.com'' no_links
       \<lparr>href_attr = Some ''http://example.com:8080/page'', rel_attr = None\<rparr>)
     = [''http://example.com:8080/page'']"
  by (simp add: anchor_step_def url_eval no_links_def or_else_def Let_def)

text \<open>
  C8, amended. The origin comparison takes the port into account, because the parsed
  \<^verbatim>\<open>host\<close> contains it: for an \<^verbatim>\<open>http\<close> or \<^verbatim>\<open>https\<close> link
  \<^verbatim>\<open>scheme://h:port/path\<close> with a written port,
  \<^verbatim>\<open>host\<close> is the lower-cased \<open>h\<close> followed by \<^verbatim>\<open>:port\<close>; against a page
  \<^verbatim>\<open>scheme://h\<close> without a port the link is not added to \<^verbatim>\<open>internalLinks\<close>, and
  against a page \<^verbatim>\<open>scheme://h:port\<close> with the same port it is.
\<close>

theorem port_is_part_of_host:
  assumes "sch = ''http'' \<or> sch = ''https''"
    and "\<forall>c\<in>set h. host_name_char c"
    and "port \<noteq> []" and "\<forall>c\<in>set port. is_digit c"
    and "href_attr el = Some href" and "href \<noteq> []"
    and "resolve baseUrl href = Inr (sch @ ''://'' @ h @ '':'' @ port @ ''/'' @ path)"
  shows "host (node_url_parse (sch @ ''://'' @ h @ '':'' @ port @ ''/'' @ path))
           = Some (map to_lower h @ '':'' @ port)
       \<and> host (node_url_parse (sch @ ''://'' @ h)) = Some (map to_lower h)
       \<and> internalLinks (anchor_step resolve sample_parse (node_url_parse (sch @ ''://'' @ h))
            baseUrl st el) = internalLinks st
       \<and> internalLinks (anchor_step resolve sample_parse
            (node_url_parse (sch @ ''://'' @ h @ '':'' @ port)) baseUrl st el)
           = internalLinks st @ [sch @ ''://'' @ h @ '':'' @ port @ ''/'' @ path]"
proof -
  let ?abs = "sch @ ''://'' @ h @ '':'' @ port @ ''/'' @ path"
  have a1: "sch \<noteq> []" using assms(1) by auto
  have a2: "\<forall>c\<in>set sch. proto_char c" using assms(1) by (auto simp: proto_char_def)
  have a3: "\<forall>c\<in>set h. \<not> host_ending_char c \<and> c \<noteq> CHR '':''"
    using assms(2) by (auto simp: host_name_char_def host_ending_char_def)
  have hp: "\<forall>c\<in>set (h @ '':'' @ port). \<not> host_ending_char c"
    using a3 assms(4) digit_not_host_ending by (auto simp: host_ending_char_def)
  have "takeWhile (\<lambda>c. \<not> host_ending_char c) ((h @ '':'' @ port) @ CHR ''/'' # path)
          = h @ '':'' @ port"
    using hp by (subst takeWhile_append2) (auto simp: host_ending_char_def)
  then have tw: "takeWhile (\<lambda>c. \<not> host_ending_char c) (h @ '':'' @ port @ ''/'' @ path)
          = h @ '':'' @ port" by simp
  have tw2: "takeWhile (\<lambda>c. \<not> host_ending_char c) (h @ '':'' @ port) = h @ '':'' @ port"
    using hp by (simp only: takeWhile_eq_all_conv) 
  have tw3: "takeWhile (\<lambda>c. \<not> host_ending_char c) h = h"
    using a3 by (simp add: takeWhile_eq_all_conv)
  have pa: "node_url_parse ?abs
              = \<lparr>protocol = Some (map to_lower sch @ '':''),
                 host = Some (map to_lower h @ '':'' @ port)\<rparr>"
    using node_url_parse_slashes [OF a1 a2, of "h @ '':'' @ port @ ''/'' @ path"]
      node_host_port [OF assms(3,4), of h]
    by (simp only: tw)
  have pb: "node_url_parse (sch @ ''://'' @ h)
              = \<lparr>protocol = Some (map to_lower sch @ '':''), host = Some (map to_lower h)\<rparr>"
    using node_url_parse_slashes [OF a1 a2, of h] node_host_no_port [of h] a3
    by (simp add: tw3)
  have pc: "node_url_parse (sch @ ''://'' @ h @ '':'' @ port)
              = \<lparr>protocol = Some (map to_lower sch @ '':''),
                 host = Some (map to_lower h @ '':'' @ port)\<rparr>"
    using node_url_parse_slashes [OF a1 a2, of "h @ '':'' @ port"]
      node_host_port [OF assms(3,4), of h]
    by (simp only: tw2)
  have sp: "sample_parse ?abs = Inr (node_url_parse ?abs)" by (simp add: sample_parse_def)
  note s = anchor_step_resolved [where resolve = resolve and parse = sample_parse
      and baseUrl = baseUrl and absoluteHref = ?abs and href = href and st = st,
      OF assms(5,6,7) sp]
  have i1: "internalLinks (anchor_step resolve sample_parse (node_url_parse (sch @ ''://'' @ h))
            baseUrl st el) = internalLinks st"
    unfolding s pa pb using assms(3) by (simp add: Let_def)
  have i2: "internalLinks (anchor_step resolve sample_parse
            (node_url_parse (sch @ ''://'' @ h @ '':'' @ port)) baseUrl st el)
           = internalLinks st @ [?abs]"
    unfolding s pa pc by (simp add: Let_def)
  from pa pb i1 i2 show ?thesis by simp
qed

theorem port_is_part_of_host_witness:
  "host (node_url_parse ''http://example.com:8080/page'') = Some ''example.com:8080''
   \<and> host (node_url_parse ''http://example.com'') = Some ''example.com''
   \<and> internalLinks (anchor_step sample_resolve sample_parse (node_url_parse ''http://example.com'')
        ''http://example.com'' no_links
        \<lparr>href_attr = Some ''http://example.com:8080/page'', rel_attr = None\<rparr>) = []
   \<and> internalLinks (anchor_step sample_resolve sample_parse
        (node_url_parse ''http://example.com:8080'') ''http://example.com:8080'' no_links
        \<lparr>href_attr = Some ''http://example.com:8080/page'', rel_attr = None\<rparr>)
       = [''http://example.com:8080/page'']"
proof -
  have r1: "sample_resolve ''http://example.com'' ''http://example.com:8080/page''
             = Inr (''http'' @ ''://'' @ ''example.com'' @ '':'' @ ''8080'' @ ''/'' @ ''page'')"
    by (simp add: url_eval)
  have r2: "sample_resolve ''http://example.com:8080'' ''http://example.com:8080/page''
             = Inr (''http'' @ ''://'' @ ''example.com'' @ '':'' @ ''8080'' @ ''/'' @ ''page'')"
    by (simp add: url_eval)
  have a1: "''http'' = ''http'' \<or> ''http'' = ''https''" by simp
  have a3: "\<forall>c\<in>set ''example.com''. host_name_char c"
    by (simp add: host_name_char_def)
  have a4: "''8080'' \<noteq> []" by simp
  have a5: "\<forall>c\<in>set ''8080''. is_digit c" by (simp add: is_digit_def)
  have a6: "href_attr \<lparr>href_attr = Some ''http://example.com:8080/page'', rel_attr = None\<rparr>
              = Some ''http://example.com:8080/page''" by simp
  have a7: "''http://example.com:8080/page'' \<noteq> []" by simp
  note t1 = port_is_part_of_host [where resolve = sample_resolve
      and baseUrl = "''http://example.com''" and st = no_links, OF a1 a3 a4 a5 a6 a7 r1]
  note t2 = port_is_part_of_host [where resolve = sample_resolve
      and baseUrl = "''http://example.com:8080''" and st = no_links, OF a1 a3 a4 a5 a6 a7 r2]
  have l: "map to_lower ''example.com'' = ''example.com''"
    by (simp add: to_lower_def)
  from t1 have c1: "host (node_url_parse ''http://example.com:8080/page'') = Some ''example.com:8080''"
    unfolding l by simp
  from t1 have c2: "host (node_url_parse ''http://example.com'') = Some ''example.com''"
    unfolding l by simp
  from t1 have c3: "internalLinks (anchor_step sample_resolve sample_parse
        (node_url_parse ''http://example.com'')
        ''http://example.com'' no_links
        \<lparr>href_attr = Some ''http://example.com:8080/page'', rel_attr = None\<rparr>) = []"
    by (simp add: no_links_def)
  from t2 have c4: "internalLinks (anchor_step sample_resolve sample_parse
        (node_url_parse ''http://example.com:8080'') ''http://example.com:8080'' no_links
        \<lparr>href_attr = Some ''http://example.com:8080/page'', rel_attr = None\<rparr>)
       = [''http://example.com:8080/page'']"
    by (simp add: no_links_def)
  from c1 c2 c3 c4 show ?thesis by blast
qed

end
